theory Spec2Isabelle
  imports Complex_Main "HOL-Library.Log_Nat"
begin

section \<open>The logarithmic spin-to-qubit mapper\<close>

text \<open>
  A shallow embedding of \<^verbatim>\<open>qiskit_nature/mappers/second_quantization/logarithmic_mapper.py\<close>.
  Python exceptions are values of the type \<open>error\<close>; a function that can raise returns
  \<open>error + 'a\<close> with \<open>Inl\<close> for the exception. NumPy arrays of complex numbers are lists
  of rows over \<^typ>\<open>complex\<close>, whose entries the embedding only copies or multiplies by
  zero and one. The one computation in floating point, the logarithm of line 132, is
  rounded to float64.
\<close>

subsection \<open>Exceptions\<close>

datatype error =
    ValueError_location
      \<comment> \<open>line 222: location must be one of EmbedLocation.UPPER or EmbedLocation.LOWER\<close>
  | ValueError_does_not_fit
      \<comment> \<open>line 227: the given matrix does not fit into the space spanned by the qubits\<close>
  | ValueError_block_shape
      \<comment> \<open>raised inside \<^verbatim>\<open>np.block\<close> when the blocks do not line up\<close>
  | OverflowError_int_of_inf
      \<comment> \<open>\<^verbatim>\<open>int\<close> applied to a float infinity\<close>
  | ValueError_int_of_nan
      \<comment> \<open>\<^verbatim>\<open>int\<close> applied to a float NaN\<close>
  | TypeError_empty_reduce
      \<comment> \<open>\<^verbatim>\<open>reduce\<close> of an empty sequence with no initial value\<close>
  | TypeError_ufunc
      \<comment> \<open>\<^verbatim>\<open>np.log2\<close> applied to an integer outside the ranges of the 64-bit integers\<close>
  | InvalidSpinError
      \<comment> \<open>the spin is not a non-negative half-integer\<close>
  | IndexError
  | ValueError_unpack
      \<comment> \<open>unpacking a tuple of the wrong length\<close>
  | LibraryError string
      \<comment> \<open>an exception raised inside one of the external collaborators\<close>

definition bind :: "error + 'a \<Rightarrow> ('a \<Rightarrow> error + 'b) \<Rightarrow> error + 'b" where
  "bind r f = (case r of Inl e \<Rightarrow> Inl e | Inr v \<Rightarrow> f v)"

fun sequence :: "('a \<Rightarrow> error + 'b) \<Rightarrow> 'a list \<Rightarrow> error + 'b list" where
  "sequence f [] = Inr []"
| "sequence f (a # as) =
     (case f a of
        Inl e \<Rightarrow> Inl e
      | Inr b \<Rightarrow> (case sequence f as of Inl e \<Rightarrow> Inl e | Inr bs \<Rightarrow> Inr (b # bs)))"

subsection \<open>The mapper and its configuration\<close>

datatype EmbedLocation = UPPER | LOWER

text \<open>
  The constructor stores whatever it is given as \<^verbatim>\<open>location\<close>; the embedding compares the
  stored value with the two members of the enumeration and raises for anything else.
\<close>

datatype location_value = Member EmbedLocation | NotAMember

record LogarithmicMapper =
  padding :: complex
  location :: location_value

subsection \<open>Two-dimensional arrays\<close>

type_synonym matrix = "complex list list"

definition ncols :: "matrix \<Rightarrow> nat" where
  "ncols m = (case m of [] \<Rightarrow> 0 | r # _ \<Rightarrow> length r)"

definition np_zeros :: "nat \<Rightarrow> nat \<Rightarrow> matrix" where
  "np_zeros r c = replicate r (replicate c 0)"

definition np_eye :: "nat \<Rightarrow> matrix" where
  "np_eye n = map (\<lambda>i. map (\<lambda>j. if i = j then 1 else 0) [0..<n]) [0..<n]"

definition times_scalar :: "matrix \<Rightarrow> complex \<Rightarrow> matrix" where
  "times_scalar m k = map (map (\<lambda>e. e * k)) m"

text \<open>
  \<^verbatim>\<open>np.block([[a, b], [c, d]])\<close>: the blocks of a row are joined side by side and must
  have the same number of rows; the two rows are then stacked and must have the same
  number of columns. An array without rows is taken to have no columns either.
\<close>

definition hstack :: "matrix \<Rightarrow> matrix \<Rightarrow> error + matrix" where
  "hstack a b =
     (if length a \<noteq> length b then Inl ValueError_block_shape
      else Inr (map (\<lambda>(r, s). r @ s) (zip a b)))"

definition vstack :: "matrix \<Rightarrow> matrix \<Rightarrow> error + matrix" where
  "vstack a b =
     (if a \<noteq> [] \<and> b \<noteq> [] \<and> ncols a \<noteq> ncols b then Inl ValueError_block_shape
      else Inr (a @ b))"

definition np_block :: "matrix \<Rightarrow> matrix \<Rightarrow> matrix \<Rightarrow> matrix \<Rightarrow> error + matrix" where
  "np_block a b c d =
     bind (hstack a b) (\<lambda>top. bind (hstack c d) (\<lambda>bottom. vstack top bottom))"

subsection \<open>Embedding a matrix into a qubit register\<close>

definition embed_matrix :: "LogarithmicMapper \<Rightarrow> matrix \<Rightarrow> nat \<Rightarrow> error + matrix" where
  "embed_matrix self matrix num_qubits =
     (let full_dim = (2::int) ^ num_qubits;
          subs_dim = int (length matrix);
          dim_diff = full_dim - subs_dim
      in if dim_diff = 0 then Inr matrix
         else if dim_diff > 0 then
           (if location self = Member LOWER then
              np_block
                (times_scalar (np_eye (nat dim_diff)) (padding self))
                (np_zeros (nat dim_diff) (nat subs_dim))
                (np_zeros (nat subs_dim) (nat dim_diff))
                matrix
            else if location self = Member UPPER then
              np_block
                matrix
                (np_zeros (nat subs_dim) (nat dim_diff))
                (np_zeros (nat dim_diff) (nat subs_dim))
                (times_scalar (np_eye (nat dim_diff)) (padding self))
            else Inl ValueError_location)
         else Inl ValueError_does_not_fit)"

text \<open>A \<open>d\<close>-by-\<open>d\<close> array: \<open>d\<close> rows of \<open>d\<close> entries each.\<close>

definition square :: "nat \<Rightarrow> matrix \<Rightarrow> bool" where
  "square d m = (length m = d \<and> list_all (\<lambda>r. length r = d) m)"

text \<open>The entry in row \<open>i\<close>, column \<open>j\<close>.\<close>

definition entry :: "matrix \<Rightarrow> nat \<Rightarrow> nat \<Rightarrow> complex" where
  "entry m i j = m ! i ! j"

subsection \<open>The external collaborators\<close>

text \<open>
  \<^verbatim>\<open>SpinOp\<close>, \<^verbatim>\<open>Operator\<close>, \<^verbatim>\<open>SparsePauliOp\<close> and \<^verbatim>\<open>PauliSumOp\<close> are imported by the
  module and defined elsewhere. The mapper uses them through six operations, which are
  parameters of the model; \<open>'op\<close> is the type of the Pauli-sum operators.
\<close>

record 'op backend =
  to_matrix :: "rat \<Rightarrow> char \<Rightarrow> error + matrix"
    \<comment> \<open>\<^verbatim>\<open>SpinOp(symbol, spin=spin).to_matrix()\<close> for a spin that \<^verbatim>\<open>SpinOp\<close> accepts\<close>
  from_operator :: "matrix \<Rightarrow> error + 'op"
    \<comment> \<open>\<^verbatim>\<open>Operator(matrix)\<close>, \<^verbatim>\<open>SparsePauliOp.from_operator\<close>, \<^verbatim>\<open>chop\<close>, \<^verbatim>\<open>PauliSumOp(1.0 * op)\<close>\<close>
  operator_matmul :: "'op \<Rightarrow> 'op \<Rightarrow> 'op"
    \<comment> \<open>\<^verbatim>\<open>a @ b\<close>: composition of two operators on the same register\<close>
  operator_xor :: "'op \<Rightarrow> 'op \<Rightarrow> 'op"
    \<comment> \<open>\<^verbatim>\<open>a ^ b\<close>: tensor product, \<open>a\<close> on the more significant qubits\<close>
  operator_add :: "'op \<Rightarrow> 'op \<Rightarrow> 'op"
    \<comment> \<open>\<^verbatim>\<open>a + b\<close>\<close>
  scalar_mul :: "complex \<Rightarrow> 'op \<Rightarrow> 'op"
    \<comment> \<open>\<^verbatim>\<open>coeff * a\<close>\<close>

text \<open>
  What \<^verbatim>\<open>map\<close> reads of its argument: the spin, the list of labelled coefficients and
  the three arrays of exponents, one row for each term and one column for each mode.
\<close>

record SpinOp =
  spin :: rat
  to_list :: "(string \<times> complex) list"
  x_arr :: "int list list"
  y_arr :: "int list list"
  z_arr :: "int list list"

subsection \<open>Python and NumPy primitives\<close>

fun reduce :: "('a \<Rightarrow> 'a \<Rightarrow> 'a) \<Rightarrow> 'a list \<Rightarrow> error + 'a" where
  "reduce f [] = Inl TypeError_empty_reduce"
| "reduce f (a # as) = Inr (foldl f a as)"

definition getitem :: "'a list \<Rightarrow> nat \<Rightarrow> error + 'a" where
  "getitem xs i = (if i < length xs then Inr (xs ! i) else Inl IndexError)"

definition enumerate_list :: "'a list \<Rightarrow> (nat \<times> 'a) list" where
  "enumerate_list xs = zip [0..<length xs] xs"

text \<open>\<^verbatim>\<open>int\<close> of a fraction or of a finite float rounds towards zero.\<close>

definition py_trunc :: "'a::floor_ceiling \<Rightarrow> int" where
  "py_trunc q = (if q < 0 then \<lceil>q\<rceil> else \<lfloor>q\<rfloor>)"

text \<open>
  The float64 nearest to a real number, ties to the even significand: 53 significant
  bits, so the spacing around \<open>x\<close> is \<open>2\<close> to the power \<open>\<lfloor>log 2 \<bar>x\<bar>\<rfloor> - 52\<close>. The
  arguments here are zero and the reals from \<open>1\<close> to \<open>2 ^ 64\<close>, where a float64 neither
  overflows nor is subnormal.
\<close>

definition round_half_even :: "real \<Rightarrow> int" where
  "round_half_even m =
     (let f = \<lfloor>m\<rfloor>
      in if m - of_int f < 1 / 2 then f
         else if 1 / 2 < m - of_int f then f + 1
         else if even f then f else f + 1)"

definition float64 :: "real \<Rightarrow> real" where
  "float64 x =
     (if x = 0 then 0
      else let ulp = 2 powr (of_int \<lfloor>log 2 \<bar>x\<bar>\<rfloor> - 52)
           in sgn x * of_int (round_half_even (\<bar>x\<bar> / ulp)) * ulp)"

text \<open>
  \<^verbatim>\<open>np.log2\<close> on a Python integer. NumPy takes the integer as an int64 or a uint64 and
  converts it to a float64; an integer outside both ranges has no such loop and raises a
  TypeError. The result is the float64 nearest to the logarithm of the converted
  argument, minus infinity at zero and NaN below zero. \<^verbatim>\<open>np.ceil\<close> keeps the last two,
  and \<^verbatim>\<open>int\<close> raises on them.
\<close>

datatype np_float = Finite real | NegInf | NaN

definition np_log2 :: "int \<Rightarrow> error + np_float" where
  "np_log2 d =
     (if d < - (2 ^ 63) \<or> 2 ^ 64 \<le> d then Inl TypeError_ufunc
      else if d > 0 then Inr (Finite (float64 (log 2 (float64 (of_int d)))))
      else if d = 0 then Inr NegInf
      else Inr NaN)"

definition np_ceil :: "np_float \<Rightarrow> np_float" where
  "np_ceil v = (case v of Finite r \<Rightarrow> Finite (of_int \<lceil>r\<rceil>) | NegInf \<Rightarrow> NegInf | NaN \<Rightarrow> NaN)"

definition py_int :: "np_float \<Rightarrow> error + int" where
  "py_int v =
     (case v of
        Finite r \<Rightarrow> Inr (py_trunc r)
      | NegInf \<Rightarrow> Inl OverflowError_int_of_inf
      | NaN \<Rightarrow> Inl ValueError_int_of_nan)"

subsection \<open>The logarithmic encoding of the spin matrices\<close>

text \<open>Lines 131 and 132: the dimension of the spin and the number of qubits.\<close>

definition register_size :: "rat \<Rightarrow> error + int \<times> int" where
  "register_size spin' =
     (let dspin = py_trunc (2 * spin' + 1)
      in bind (np_log2 dspin) (\<lambda>log2_dspin.
         bind (py_int (np_ceil log2_dspin)) (\<lambda>num_qubits. Inr (dspin, num_qubits))))"

text \<open>The spins of the data model: the non-negative half-integers.\<close>

definition valid_spin :: "rat \<Rightarrow> bool" where
  "valid_spin s = (0 \<le> s \<and> 2 * s = of_int \<lfloor>2 * s\<rfloor>)"

text \<open>
  Modelled from the spec: the check of the spin by the provider of the spin matrices. The
  provider is the class \<^verbatim>\<open>SpinOp\<close> of \<^verbatim>\<open>qiskit_nature.operators.second_quantization\<close>,
  whose module is not among these sources. The spec has one error for the spin,
  InvalidSpinError, "spin quantum number is not a non-negative half-integer"; a spin that
  passes the check has the matrices of the backend.
\<close>

definition SpinOp_to_matrix :: "'op backend \<Rightarrow> rat \<Rightarrow> char \<Rightarrow> error + matrix" where
  "SpinOp_to_matrix B s symbol =
     (if valid_spin s then to_matrix B s symbol else Inl InvalidSpinError)"

text \<open>
  Lines 135 to 151. The four operators are returned as a tuple, which \<^verbatim>\<open>map\<close> unpacks.
  \<open>num_qubits\<close> is not negative when line 132 has not raised, so \<open>nat\<close> loses nothing.
\<close>

definition logarithmic_encoding ::
  "'op backend \<Rightarrow> LogarithmicMapper \<Rightarrow> rat \<Rightarrow> error + 'op \<times> 'op \<times> 'op \<times> 'op" where
  "logarithmic_encoding B self spin' =
     bind (register_size spin') (\<lambda>(dspin, num_qubits).
     bind (sequence (\<lambda>symbol. SpinOp_to_matrix B spin' symbol) ''XYZ'') (\<lambda>spin_matrices.
     bind (sequence (\<lambda>matrix. embed_matrix self matrix (nat num_qubits))
             (spin_matrices @ [np_eye (nat dspin)])) (\<lambda>embedded_spin_matrices.
     bind (sequence (from_operator B) embedded_spin_matrices) (\<lambda>spin_op_encoding.
       (case spin_op_encoding of
          [spinx, spiny, spinz, identity] \<Rightarrow> Inr (spinx, spiny, spinz, identity)
        | _ \<Rightarrow> Inl ValueError_unpack)))))"

subsection \<open>Mapping a spin operator\<close>

text \<open>Lines 93 to 110: the operator of one mode with the exponents \<open>n_x\<close>, \<open>n_y\<close>, \<open>n_z\<close>.\<close>

definition repeated :: "'op backend \<Rightarrow> 'op \<Rightarrow> int \<Rightarrow> error + 'op list" where
  "repeated B s n =
     (if n > 0 then bind (reduce (operator_matmul B) (replicate (nat n) s)) (\<lambda>p. Inr [p])
      else Inr [])"

definition single_operator_on_spin_i ::
  "'op backend \<Rightarrow> 'op \<times> 'op \<times> 'op \<times> 'op \<Rightarrow> int \<times> int \<times> int \<Rightarrow> error + 'op" where
  "single_operator_on_spin_i B enc n =
     (case enc of (spinx, spiny, spinz, identity) \<Rightarrow>
      case n of (n_x, n_y, n_z) \<Rightarrow>
        bind (repeated B spinx n_x) (\<lambda>px.
        bind (repeated B spiny n_y) (\<lambda>py.
        bind (repeated B spinz n_z) (\<lambda>pz.
          let operator_on_spin_i = px @ py @ pz
          in if operator_on_spin_i \<noteq> [] then reduce (operator_matmul B) operator_on_spin_i
             else Inr identity))))"

text \<open>Lines 89 to 113: the operator of the term with index \<open>idx\<close> and coefficient \<open>coeff\<close>.\<close>

definition term_operator ::
  "'op backend \<Rightarrow> 'op \<times> 'op \<times> 'op \<times> 'op \<Rightarrow> SpinOp \<Rightarrow> nat \<times> string \<times> complex \<Rightarrow> error + 'op" where
  "term_operator B enc second_q_op t =
     (case t of (idx, _, coeff) \<Rightarrow>
        bind (getitem (x_arr second_q_op) idx) (\<lambda>xi.
        bind (getitem (y_arr second_q_op) idx) (\<lambda>yi.
        bind (getitem (z_arr second_q_op) idx) (\<lambda>zi.
        bind (sequence (single_operator_on_spin_i B enc) (zip xi (zip yi zi))) (\<lambda>operatorlist.
        bind (reduce (operator_xor B) (rev operatorlist)) (\<lambda>tensored.
          Inr (scalar_mul B coeff tensored)))))))"

text \<open>Lines 83 to 117.\<close>

definition map_op :: "'op backend \<Rightarrow> LogarithmicMapper \<Rightarrow> SpinOp \<Rightarrow> error + 'op" where
  "map_op B self second_q_op =
     bind (logarithmic_encoding B self (spin second_q_op)) (\<lambda>enc.
     bind (sequence (term_operator B enc second_q_op) (enumerate_list (to_list second_q_op)))
       (\<lambda>qubit_ops_list. reduce (operator_add B) qubit_ops_list))"

subsection \<open>The composition as the design describes it\<close>

text \<open>
  An operator composed with itself: \<open>k\<close> copies, for \<open>k\<close> at least one, multiplied from
  the left to the right. A factor with the exponent zero is left out of the product, so
  the value at zero is never used.
\<close>

fun composed_with_itself :: "'op backend \<Rightarrow> 'op \<Rightarrow> nat \<Rightarrow> 'op" where
  "composed_with_itself B s (Suc (Suc k)) = operator_matmul B (composed_with_itself B s (Suc k)) s"
| "composed_with_itself B s k = s"

text \<open>
  The local operator of a mode with the exponents \<open>a\<close>, \<open>b\<close>, \<open>c\<close>: the encoded identity
  when all three are zero, otherwise the product of the powers of \<open>Xq\<close>, \<open>Yq\<close> and \<open>Zq\<close>
  that are present, in this order.
\<close>

definition local_operator ::
  "'op backend \<Rightarrow> 'op \<times> 'op \<times> 'op \<times> 'op \<Rightarrow> nat \<times> nat \<times> nat \<Rightarrow> 'op" where
  "local_operator B enc e =
     (case enc of (Xq, Yq, Zq, Iq) \<Rightarrow>
      case e of (a, b, c) \<Rightarrow>
        if a = 0 \<and> b = 0 \<and> c = 0 then Iq
        else (case (if a = 0 then [] else [composed_with_itself B Xq a]) @
                   (if b = 0 then [] else [composed_with_itself B Yq b]) @
                   (if c = 0 then [] else [composed_with_itself B Zq c]) of
                p # ps \<Rightarrow> foldl (operator_matmul B) p ps
              | [] \<Rightarrow> Iq))"

text \<open>
  The tensor product over the modes in reverse order: the operator of the first mode is
  the rightmost factor, the operator of the last mode the leftmost one.
\<close>

fun tensor_reverse_modes :: "'op backend \<Rightarrow> 'op \<Rightarrow> 'op list \<Rightarrow> 'op" where
  "tensor_reverse_modes B first_mode [] = first_mode"
| "tensor_reverse_modes B first_mode (p # ps) =
     operator_xor B (tensor_reverse_modes B p ps) first_mode"

text \<open>The sum of two results; an exception of the first one comes first.\<close>

definition add_results :: "'op backend \<Rightarrow> error + 'op \<Rightarrow> error + 'op \<Rightarrow> error + 'op" where
  "add_results B r1 r2 = bind r1 (\<lambda>a. bind r2 (\<lambda>b. Inr (operator_add B a b)))"

subsection \<open>A symbolic backend\<close>

text \<open>
  Operators as the expressions that build them, so that the order and the kind of every
  product stay visible in a result. The spin matrices of this backend are those of the
  spin \<open>1 / 2\<close>, the halves of the Pauli matrices; it has none for another spin.
\<close>

datatype pauli_expr =
    Atom string
  | Decomposed matrix
  | Compose pauli_expr pauli_expr
  | Tensor pauli_expr pauli_expr
  | Plus pauli_expr pauli_expr
  | Times complex pauli_expr

definition spin_half_matrices :: "rat \<Rightarrow> char \<Rightarrow> error + matrix" where
  "spin_half_matrices s symbol =
     (if s = 1 / 2 then
        Inr (if symbol = CHR ''X'' then [[0, 1 / 2], [1 / 2, 0]]
             else if symbol = CHR ''Y'' then [[0, - \<i> / 2], [\<i> / 2, 0]]
             else [[1 / 2, 0], [0, - 1 / 2]])
      else Inl (LibraryError ''no matrices for this spin''))"

definition symbolic :: "pauli_expr backend" where
  "symbolic =
     \<lparr>to_matrix = spin_half_matrices,
      from_operator = (\<lambda>m. Inr (Decomposed m)),
      operator_matmul = Compose,
      operator_xor = Tensor,
      operator_add = Plus,
      scalar_mul = Times\<rparr>"

section \<open>Properties of the embedding\<close>

lemma hstack_ok: "length a = length b \<Longrightarrow> hstack a b = Inr (map (\<lambda>(r, s). r @ s) (zip a b))"
  by (simp add: hstack_def)

lemma bind_Inr: "bind (Inr v) f = f v"
  by (simp add: bind_def)

lemma ncols_hrows:
  assumes "length a = length b" "a \<noteq> []" "list_all (\<lambda>r. length r = p) a" "list_all (\<lambda>r. length r = q) b"
  shows "ncols (map (\<lambda>(r, s). r @ s) (zip a b)) = p + q"
  using assms by (cases a; cases b) (auto simp: ncols_def)

lemma np_block_ok:
  assumes "length a = length b" "length c = length d"
    and "list_all (\<lambda>r. length r = p) a" "list_all (\<lambda>r. length r = q) b"
    and "list_all (\<lambda>r. length r = p) c" "list_all (\<lambda>r. length r = q) d"
  shows "np_block a b c d =
           Inr (map (\<lambda>(r, s). r @ s) (zip a b) @ map (\<lambda>(r, s). r @ s) (zip c d))"
proof -
  have "a \<noteq> [] \<Longrightarrow> c \<noteq> [] \<Longrightarrow>
        ncols (map (\<lambda>(r, s). r @ s) (zip a b)) = ncols (map (\<lambda>(r, s). r @ s) (zip c d))"
    using assms by (simp add: ncols_hrows)
  moreover have "map (\<lambda>(r, s). r @ s) (zip a b) \<noteq> [] \<Longrightarrow> a \<noteq> []"
    by auto
  moreover have "map (\<lambda>(r, s). r @ s) (zip c d) \<noteq> [] \<Longrightarrow> c \<noteq> []"
    by auto
  ultimately show ?thesis
    using assms(1,2) unfolding np_block_def vstack_def
    by (simp add: hstack_ok bind_Inr del: map_is_Nil_conv) blast
qed

lemma rows_zeros: "list_all (\<lambda>r. length r = c) (np_zeros r c)"
  by (simp add: np_zeros_def list_all_iff)

lemma rows_eye: "list_all (\<lambda>r. length r = n) (times_scalar (np_eye n) k)"
  by (simp add: np_eye_def times_scalar_def list_all_iff)

lemma length_zeros: "length (np_zeros r c) = r"
  by (simp add: np_zeros_def)

lemma length_eye: "length (times_scalar (np_eye n) k) = n"
  by (simp add: np_eye_def times_scalar_def)

lemma embed_upper:
  assumes sq: "square d m" and fit: "d < 2 ^ n" and loc: "location self = Member UPPER"
  shows "embed_matrix self m n =
      Inr (map (\<lambda>(r, s). r @ s) (zip m (np_zeros d (2 ^ n - d))) @
           map (\<lambda>(r, s). r @ s) (zip (np_zeros (2 ^ n - d) d) (times_scalar (np_eye (2 ^ n - d)) (padding self))))"
proof -
  have len: "length m = d" and rows: "list_all (\<lambda>r. length r = d) m"
    using sq by (simp_all add: square_def)
  from fit have "int d < int (2 ^ n)"
    by (simp only: of_nat_less_iff)
  then have lt: "int d < 2 ^ n"
    by simp
  have pos: "(2::int) ^ n - int d > 0" and nz: "(2::int) ^ n - int d \<noteq> 0"
    using lt by simp_all
  have k: "nat ((2::int) ^ n - int d) = 2 ^ n - d"
    by (simp add: nat_diff_distrib' nat_power_eq)
  show ?thesis
    unfolding embed_matrix_def Let_def len using pos nz loc
    by (simp add: k np_block_ok [where p = d and q = "2 ^ n - d"] rows rows_zeros rows_eye
        length_zeros length_eye len)
qed

lemma embed_lower:
  assumes sq: "square d m" and fit: "d < 2 ^ n" and loc: "location self = Member LOWER"
  shows "embed_matrix self m n =
      Inr (map (\<lambda>(r, s). r @ s) (zip (times_scalar (np_eye (2 ^ n - d)) (padding self)) (np_zeros (2 ^ n - d) d)) @
           map (\<lambda>(r, s). r @ s) (zip (np_zeros d (2 ^ n - d)) m))"
proof -
  have len: "length m = d" and rows: "list_all (\<lambda>r. length r = d) m"
    using sq by (simp_all add: square_def)
  from fit have "int d < int (2 ^ n)"
    by (simp only: of_nat_less_iff)
  then have lt: "int d < 2 ^ n"
    by simp
  have pos: "(2::int) ^ n - int d > 0" and nz: "(2::int) ^ n - int d \<noteq> 0"
    using lt by simp_all
  have k: "nat ((2::int) ^ n - int d) = 2 ^ n - d"
    by (simp add: nat_diff_distrib' nat_power_eq)
  show ?thesis
    unfolding embed_matrix_def Let_def len using pos nz loc
    by (simp add: k np_block_ok [where q = d and p = "2 ^ n - d"] rows rows_zeros rows_eye
        length_zeros length_eye len)
qed

lemma block_entry:
  assumes "length a = length b" "length c = length d"
    and "list_all (\<lambda>r. length r = p) a" "list_all (\<lambda>r. length r = p) c"
    and "i < length a + length c"
  shows "entry (map (\<lambda>(r, s). r @ s) (zip a b) @ map (\<lambda>(r, s). r @ s) (zip c d)) i j =
     (if i < length a
      then (if j < p then entry a i j else entry b i (j - p))
      else (if j < p then entry c (i - length a) j else entry d (i - length a) (j - p)))"
proof (cases "i < length a")
  case True
  then have "length (a ! i) = p"
    using assms(3) by (simp add: list_all_length)
  then show ?thesis
    using True assms(1) by (simp add: entry_def nth_append)
next
  case False
  then have i: "i - length a < length c"
    using assms(5) by simp
  then have "length (c ! (i - length a)) = p"
    using assms(4) by (simp add: list_all_length)
  then show ?thesis
    using False i assms(1,2) by (simp add: entry_def nth_append)
qed

lemma block_square:
  assumes "length a = length b" "length c = length d"
    and "list_all (\<lambda>r. length r = p) a" "list_all (\<lambda>r. length r = q) b"
    and "list_all (\<lambda>r. length r = p) c" "list_all (\<lambda>r. length r = q) d"
    and "length a + length c = p + q"
  shows "square (p + q) (map (\<lambda>(r, s). r @ s) (zip a b) @ map (\<lambda>(r, s). r @ s) (zip c d))"
  using assms unfolding square_def list_all_length
  by (auto simp: nth_append)

lemma entry_np_zeros: "i < r \<Longrightarrow> j < c \<Longrightarrow> entry (np_zeros r c) i j = 0"
  by (simp add: np_zeros_def entry_def)

lemma entry_np_eye: "i < n \<Longrightarrow> j < n \<Longrightarrow> entry (times_scalar (np_eye n) k) i j = (if i = j then 1 else 0) * k"
  by (simp add: np_eye_def times_scalar_def entry_def)

text \<open>
  Claim C3. For a \<open>d\<close>-by-\<open>d\<close> matrix and a register with \<open>2 ^ n - d > 0\<close>, the embedding
  returns a \<open>2 ^ n\<close>-by-\<open>2 ^ n\<close> block-diagonal matrix. With \<open>UPPER\<close> the input is the
  upper-left block, with \<open>LOWER\<close> the lower-right block; the other diagonal block is the
  identity of dimension \<open>2 ^ n - d\<close> times the padding value, and every entry with one
  index in each block is zero.
\<close>

theorem embed_matrix_block_diagonal:
  assumes sq: "square d m" and fit: "d < 2 ^ n" and loc: "location self = Member loc"
  shows "\<exists>M. embed_matrix self m n = Inr M \<and> square (2 ^ n) M \<and>
    (\<forall>i < 2 ^ n. \<forall>j < 2 ^ n. entry M i j =
       (case loc of
          UPPER \<Rightarrow>
            if i < d \<and> j < d then entry m i j
            else if d \<le> i \<and> d \<le> j then (if i = j then 1 else 0) * padding self
            else 0
        | LOWER \<Rightarrow>
            if i < 2 ^ n - d \<and> j < 2 ^ n - d then (if i = j then 1 else 0) * padding self
            else if 2 ^ n - d \<le> i \<and> 2 ^ n - d \<le> j then entry m (i - (2 ^ n - d)) (j - (2 ^ n - d))
            else 0))"
proof -
  define k :: nat where "k = 2 ^ n - d"
  have dk: "d + k = 2 ^ n" and kd: "k + d = 2 ^ n"
    using fit by (simp_all add: k_def)
  have len: "length m = d" and rows: "list_all (\<lambda>r. length r = d) m"
    using sq by (simp_all add: square_def)
  show ?thesis
  proof (cases loc)
    case UPPER
    let ?M = "map (\<lambda>(r, s). r @ s) (zip m (np_zeros d k)) @
           map (\<lambda>(r, s). r @ s) (zip (np_zeros k d) (times_scalar (np_eye k) (padding self)))"
    have 1: "embed_matrix self m n = Inr ?M"
      using embed_upper [OF sq fit] loc UPPER by (simp add: k_def)
    have 2: "square (2 ^ n) ?M"
      using block_square [of m "np_zeros d k" "np_zeros k d" "times_scalar (np_eye k) (padding self)" d k]
      by (simp add: len rows rows_zeros rows_eye length_zeros length_eye dk)
    have 3: "entry ?M i j =
            (if i < d \<and> j < d then entry m i j
             else if d \<le> i \<and> d \<le> j then (if i = j then 1 else 0) * padding self
             else 0)" if "i < 2 ^ n" "j < 2 ^ n" for i j
    proof -
      have "i < length m + length (np_zeros k d)"
        using that dk by (simp add: len length_zeros)
      from block_entry [OF _ _ rows rows_zeros this, of "np_zeros d k" "times_scalar (np_eye k) (padding self)" j]
      show ?thesis
        using that dk by (auto simp: len length_zeros length_eye entry_np_zeros entry_np_eye)
    qed
    show ?thesis
      using 1 2 3 UPPER by simp
  next
    case LOWER
    let ?M = "map (\<lambda>(r, s). r @ s) (zip (times_scalar (np_eye k) (padding self)) (np_zeros k d)) @
           map (\<lambda>(r, s). r @ s) (zip (np_zeros d k) m)"
    have 1: "embed_matrix self m n = Inr ?M"
      using embed_lower [OF sq fit] loc LOWER by (simp add: k_def)
    have 2: "square (2 ^ n) ?M"
      using block_square [of "times_scalar (np_eye k) (padding self)" "np_zeros k d" "np_zeros d k" m k d]
      by (simp add: len rows rows_zeros rows_eye length_zeros length_eye kd)
    have 3: "entry ?M i j =
            (if i < k \<and> j < k then (if i = j then 1 else 0) * padding self
             else if k \<le> i \<and> k \<le> j then entry m (i - k) (j - k)
             else 0)" if "i < 2 ^ n" "j < 2 ^ n" for i j
    proof -
      have "i < length (times_scalar (np_eye k) (padding self)) + length (np_zeros d k)"
        using that kd by (simp add: length_zeros length_eye)
      from block_entry [OF _ _ rows_eye rows_zeros this, of "np_zeros k d" m j]
      show ?thesis
        using that kd by (auto simp: len length_zeros length_eye entry_np_zeros entry_np_eye)
    qed
    show ?thesis
      using 1 2 3 LOWER by (simp add: k_def)
  qed
qed

theorem embed_matrix_block_diagonal_witness:
  "square 3 [[1, 2, 3], [4, 5, 6], [7, 8, 9]] \<and> (3::nat) < 2 ^ 2 \<and>
   (\<exists>M. embed_matrix \<lparr>padding = 5, location = Member UPPER\<rparr> [[1, 2, 3], [4, 5, 6], [7, 8, 9]] 2 = Inr M \<and>
        entry M 1 2 = 6 \<and> entry M 3 3 = 5 \<and> entry M 0 3 = 0 \<and> entry M 3 0 = 0) \<and>
   (\<exists>M. embed_matrix \<lparr>padding = 5, location = Member LOWER\<rparr> [[1, 2, 3], [4, 5, 6], [7, 8, 9]] 2 = Inr M \<and>
        entry M 2 3 = 6 \<and> entry M 0 0 = 5 \<and> entry M 0 3 = 0 \<and> entry M 3 0 = 0)"
proof -
  let ?upper = "\<lparr>padding = 5, location = Member UPPER\<rparr>"
  let ?lower = "\<lparr>padding = 5, location = Member LOWER\<rparr>"
  let ?m = "[[1, 2, 3], [4, 5, 6], [7, 8, 9]] :: matrix"
  have h1: "square 3 ?m"
    by (simp add: square_def)
  have h2: "(3::nat) < 2 ^ 2"
    by simp
  have m12: "entry ?m 1 2 = 6"
    by (simp add: entry_def)
  have "location ?upper = Member UPPER"
    by simp
  from embed_matrix_block_diagonal [OF h1 h2 this]
  obtain M where M: "embed_matrix ?upper ?m 2 = Inr M"
    and E: "\<And>i j. i < 4 \<Longrightarrow> j < 4 \<Longrightarrow> entry M i j =
             (if i < 3 \<and> j < 3 then entry ?m i j
              else if 3 \<le> i \<and> 3 \<le> j then (if i = j then 1 else 0) * 5 else 0)"
    by auto
  have "entry M 1 2 = 6" "entry M 3 3 = 5" "entry M 0 3 = 0" "entry M 3 0 = 0"
    using m12 by (simp_all add: E)
  with M have upper: "\<exists>M. embed_matrix ?upper ?m 2 = Inr M \<and>
        entry M 1 2 = 6 \<and> entry M 3 3 = 5 \<and> entry M 0 3 = 0 \<and> entry M 3 0 = 0"
    by blast
  have "location ?lower = Member LOWER"
    by simp
  from embed_matrix_block_diagonal [OF h1 h2 this]
  obtain N where N: "embed_matrix ?lower ?m 2 = Inr N"
    and F: "\<And>i j. i < 4 \<Longrightarrow> j < 4 \<Longrightarrow> entry N i j =
             (if i < 1 \<and> j < 1 then (if i = j then 1 else 0) * 5
              else if 1 \<le> i \<and> 1 \<le> j then entry ?m (i - 1) (j - 1) else 0)"
    by auto
  have "entry N 2 3 = 6" "entry N 0 0 = 5" "entry N 0 3 = 0" "entry N 3 0 = 0"
    using m12 by (simp_all add: F)
  with N have lower: "\<exists>M. embed_matrix ?lower ?m 2 = Inr M \<and>
        entry M 2 3 = 6 \<and> entry M 0 0 = 5 \<and> entry M 0 3 = 0 \<and> entry M 3 0 = 0"
    by blast
  from h1 h2 upper lower show ?thesis
    by blast
qed

text \<open>
  Claim C5. When the matrix has exactly \<open>2 ^ num_qubits\<close> rows (\<open>dim_diff = 0\<close>), the
  embedding returns the matrix itself, whatever the padding value and the location are.
\<close>

theorem embed_matrix_same_dimension:
  assumes "length m = 2 ^ n"
  shows "\<forall>self. embed_matrix self m n = Inr m"
  using assms by (simp add: embed_matrix_def)

theorem embed_matrix_same_dimension_witness:
  "length [[0, 1], [1, 0::complex]] = 2 ^ 1 \<and>
   embed_matrix \<lparr>padding = 7, location = Member LOWER\<rparr> [[0, 1], [1, 0]] 1 = Inr [[0, 1], [1, 0]] \<and>
   embed_matrix \<lparr>padding = 1, location = Member UPPER\<rparr> [[0, 1], [1, 0]] 1 = Inr [[0, 1], [1, 0]]"
  using embed_matrix_same_dimension [of "[[0, 1], [1, 0]]" 1] by simp

lemma np_block_error: "np_block a b c d = Inl e \<Longrightarrow> e = ValueError_block_shape"
  by (auto simp: np_block_def hstack_def vstack_def bind_def split: if_splits)

lemma embed_matrix_fits_iff:
  "embed_matrix self m n = Inl ValueError_does_not_fit \<longleftrightarrow> 2 ^ n < length m"
proof -
  have "(2::int) ^ n - int (length m) < 0 \<longleftrightarrow> 2 ^ n < length m"
    by (metis diff_less_0_iff_less of_nat_less_iff of_nat_numeral of_nat_power)
  then show ?thesis
    unfolding embed_matrix_def Let_def
    by (auto dest: np_block_error)
qed

text \<open>
  Claim C6. The embedding raises the does-not-fit error exactly when the matrix has more
  than \<open>2 ^ num_qubits\<close> rows. When a square matrix fits and the location is a member of
  the enumeration, the embedding returns a matrix.
\<close>

theorem embed_matrix_does_not_fit_iff:
  "(embed_matrix self m n = Inl ValueError_does_not_fit \<longleftrightarrow> 2 ^ n < length m) \<and>
   (length m \<le> 2 ^ n \<and> square (length m) m \<and> location self \<noteq> NotAMember \<longrightarrow>
      (\<exists>M. embed_matrix self m n = Inr M))"
proof -
  have "\<exists>M. embed_matrix self m n = Inr M"
    if fit: "length m \<le> 2 ^ n" and sq: "square (length m) m" and loc: "location self \<noteq> NotAMember"
  proof (cases "length m = 2 ^ n")
    case True
    then show ?thesis
      by (simp add: embed_matrix_def)
  next
    case False
    with fit have lt: "length m < 2 ^ n"
      by simp
    from loc consider "location self = Member UPPER" | "location self = Member LOWER"
      by (metis EmbedLocation.exhaust location_value.exhaust)
    then show ?thesis
      using embed_upper [OF sq lt] embed_lower [OF sq lt] by cases simp_all
  qed
  then show ?thesis
    using embed_matrix_fits_iff by blast
qed

theorem embed_matrix_does_not_fit_iff_witness:
  "length [[1, 2, 3], [4, 5, 6], [7, 8, 9::complex]] \<le> 2 ^ 2 \<and>
   square (length [[1, 2, 3], [4, 5, 6], [7, 8, 9::complex]]) [[1, 2, 3], [4, 5, 6], [7, 8, 9]] \<and>
   location \<lparr>padding = 1, location = Member LOWER\<rparr> \<noteq> NotAMember \<and>
   (\<exists>M. embed_matrix \<lparr>padding = 1, location = Member LOWER\<rparr> [[1, 2, 3], [4, 5, 6], [7, 8, 9]] 2 = Inr M) \<and>
   embed_matrix \<lparr>padding = 1, location = Member LOWER\<rparr> [[1, 2, 3], [4, 5, 6], [7, 8, 9]] 1
     = Inl ValueError_does_not_fit"
  using embed_matrix_does_not_fit_iff [of "\<lparr>padding = 1, location = Member LOWER\<rparr>" "[[1, 2, 3], [4, 5, 6], [7, 8, 9]]" 2]
    embed_matrix_does_not_fit_iff [of "\<lparr>padding = 1, location = Member LOWER\<rparr>" "[[1, 2, 3], [4, 5, 6], [7, 8, 9]]" 1]
  by (simp add: square_def)

section \<open>Properties of the composition of a term\<close>

lemma foldl_replicate_composed:
  "foldl (operator_matmul B) s (replicate k s) = composed_with_itself B s (Suc k)"
proof (induction k)
  case 0
  show ?case by simp
next
  case (Suc k)
  have "replicate (Suc k) s = replicate k s @ [s]"
    by (simp add: replicate_append_same)
  then have "foldl (operator_matmul B) s (replicate (Suc k) s) =
             operator_matmul B (foldl (operator_matmul B) s (replicate k s)) s"
    by (simp only: foldl_append foldl.simps)
  with Suc show ?case
    by simp
qed

lemma repeated_eq:
  "repeated B s n = Inr (if n \<le> 0 then [] else [composed_with_itself B s (nat n)])"
proof (cases "n \<le> 0")
  case True
  then show ?thesis
    by (simp add: repeated_def)
next
  case False
  then obtain k where k: "nat n = Suc k"
    by (metis not_le zero_less_nat_eq gr0_implies_Suc)
  show ?thesis
    using False by (simp add: repeated_def k bind_def foldl_replicate_composed)
qed

text \<open>
  Claim C1. For exponents \<open>a\<close>, \<open>b\<close>, \<open>c\<close> that are not negative, the operator that
  \<^verbatim>\<open>map\<close> builds for a mode is the encoded identity when all three are zero, and otherwise
  the composition (\<^verbatim>\<open>@\<close>, not \<^verbatim>\<open>^\<close>) of \<open>Xq\<close> repeated \<open>a\<close> times, \<open>Yq\<close> repeated \<open>b\<close>
  times and \<open>Zq\<close> repeated \<open>c\<close> times, in this order, without the factors whose exponent
  is zero; building it never raises.
\<close>

theorem single_operator_on_spin_i_local_operator:
  assumes "0 \<le> a" "0 \<le> b" "0 \<le> c"
  shows "single_operator_on_spin_i B (Xq, Yq, Zq, Iq) (a, b, c) =
           Inr (local_operator B (Xq, Yq, Zq, Iq) (nat a, nat b, nat c))"
  using assms
  by (auto simp: single_operator_on_spin_i_def local_operator_def repeated_eq bind_def)

theorem single_operator_on_spin_i_local_operator_witness:
  "(0::int) \<le> 2 \<and> (0::int) \<le> 0 \<and> (0::int) \<le> 1 \<and>
   single_operator_on_spin_i symbolic (Atom ''Xq'', Atom ''Yq'', Atom ''Zq'', Atom ''Iq'') (2, 0, 1)
     = Inr (Compose (Compose (Atom ''Xq'') (Atom ''Xq'')) (Atom ''Zq'')) \<and>
   single_operator_on_spin_i symbolic (Atom ''Xq'', Atom ''Yq'', Atom ''Zq'', Atom ''Iq'') (0, 0, 0)
     = Inr (Atom ''Iq'')"
  using single_operator_on_spin_i_local_operator
          [of 2 0 1 symbolic "Atom ''Xq''" "Atom ''Yq''" "Atom ''Zq''" "Atom ''Iq''"]
        single_operator_on_spin_i_local_operator
          [of 0 0 0 symbolic "Atom ''Xq''" "Atom ''Yq''" "Atom ''Zq''" "Atom ''Iq''"]
  by (simp add: local_operator_def symbolic_def numeral_2_eq_2)

lemma single_operator_on_spin_i_total:
  "\<exists>p. single_operator_on_spin_i B enc n = Inr p"
proof -
  obtain sx sy sz si where enc: "enc = (sx, sy, sz, si)"
    by (cases enc) auto
  obtain a b c where n: "n = (a, b, c)"
    by (cases n) auto
  have "\<exists>p. reduce f xs = Inr p" if "xs \<noteq> []" for f :: "'a \<Rightarrow> 'a \<Rightarrow> 'a" and xs
    using that by (cases xs) simp_all
  then show ?thesis
    unfolding enc n single_operator_on_spin_i_def
    by (simp add: repeated_eq bind_def Let_def)
qed

lemma sequence_total:
  assumes "\<And>a. \<exists>b. f a = Inr b"
  shows "\<exists>bs. sequence f as = Inr bs \<and> length bs = length as"
proof (induction as)
  case Nil
  show ?case by simp
next
  case (Cons a as)
  from assms obtain b where "f a = Inr b"
    by blast
  with Cons show ?case
    by auto
qed

lemma reduce_snoc:
  "xs \<noteq> [] \<Longrightarrow> reduce f (xs @ [l]) = bind (reduce f xs) (\<lambda>r. Inr (f r l))"
  by (cases xs) (simp_all add: bind_def)

lemma reduce_rev_tensor:
  "reduce (operator_xor B) (rev (l # ls)) = Inr (tensor_reverse_modes B l ls)"
proof (induction ls arbitrary: l)
  case Nil
  show ?case by simp
next
  case (Cons p ps)
  have "reduce (operator_xor B) (rev (l # p # ps)) =
        bind (reduce (operator_xor B) (rev (p # ps))) (\<lambda>r. Inr (operator_xor B r l))"
    using reduce_snoc [of "rev (p # ps)" "operator_xor B" l] by simp
  then show ?case
    by (simp only: Cons.IH bind_def sum.case tensor_reverse_modes.simps)
qed

text \<open>
  Claim C2. For a term with at least one mode, \<^verbatim>\<open>map\<close> tensors the operators of the
  modes in reverse order, the last mode being the leftmost factor, and multiplies the
  result by the coefficient of the term.
\<close>

theorem term_operator_tensor_reverse:
  assumes "idx < length (x_arr second_q_op)" "idx < length (y_arr second_q_op)"
    and "idx < length (z_arr second_q_op)"
    and "zip (x_arr second_q_op ! idx) (zip (y_arr second_q_op ! idx) (z_arr second_q_op ! idx)) \<noteq> []"
  shows "\<exists>l ls.
     sequence (single_operator_on_spin_i B enc)
       (zip (x_arr second_q_op ! idx) (zip (y_arr second_q_op ! idx) (z_arr second_q_op ! idx)))
       = Inr (l # ls) \<and>
     term_operator B enc second_q_op (idx, label, coeff) =
       Inr (scalar_mul B coeff (tensor_reverse_modes B l ls))"
proof -
  define modes where
    "modes = zip (x_arr second_q_op ! idx) (zip (y_arr second_q_op ! idx) (z_arr second_q_op ! idx))"
  have ne: "modes \<noteq> []"
    using assms(4) by (simp only: modes_def not_False_eq_True)
  from sequence_total [of "single_operator_on_spin_i B enc" modes]
  obtain bs where bs: "sequence (single_operator_on_spin_i B enc) modes = Inr bs"
    and len: "length bs = length modes"
    using single_operator_on_spin_i_total by blast
  from len ne have "bs \<noteq> []"
    by auto
  then obtain l ls where l: "bs = l # ls"
    by (cases bs) auto
  have "term_operator B enc second_q_op (idx, label, coeff) =
          bind (sequence (single_operator_on_spin_i B enc) modes) (\<lambda>operatorlist.
          bind (reduce (operator_xor B) (rev operatorlist)) (\<lambda>tensored.
            Inr (scalar_mul B coeff tensored)))"
    using assms(1-3) by (simp add: term_operator_def getitem_def bind_def modes_def)
  then have "term_operator B enc second_q_op (idx, label, coeff) =
          Inr (scalar_mul B coeff (tensor_reverse_modes B l ls))"
    by (simp only: bs l reduce_rev_tensor bind_def sum.case)
  with bs l show ?thesis
    unfolding modes_def by blast
qed

theorem term_operator_tensor_reverse_witness:
  "(0::nat) < length [[1, 0, 0::int]] \<and>
   zip [1, 0, 0::int] (zip [0, 0, 0::int] [0, 0, 1::int]) \<noteq> [] \<and>
   term_operator symbolic (Atom ''Xq'', Atom ''Yq'', Atom ''Zq'', Atom ''Iq'')
       \<lparr>spin = 1, to_list = [(''X_0 Z_2'', 3)], x_arr = [[1, 0, 0]], y_arr = [[0, 0, 0]], z_arr = [[0, 0, 1]]\<rparr>
       (0, ''X_0 Z_2'', 3) = Inr (Times 3 (Tensor (Tensor (Atom ''Zq'') (Atom ''Iq'')) (Atom ''Xq'')))"
  using term_operator_tensor_reverse
    [of 0 "\<lparr>spin = 1, to_list = [(''X_0 Z_2'', 3)], x_arr = [[1, 0, 0]], y_arr = [[0, 0, 0]], z_arr = [[0, 0, 1]]\<rparr>"
        symbolic "(Atom ''Xq'', Atom ''Yq'', Atom ''Zq'', Atom ''Iq'')" "''X_0 Z_2''" 3]
  by (auto simp: single_operator_on_spin_i_def repeated_def bind_def symbolic_def)

section \<open>Properties of the rounding to float64\<close>

lemma round_half_even_of_int: "round_half_even (of_int k) = k"
  by (simp add: round_half_even_def)

lemma round_half_even_le: "m \<le> of_int K \<Longrightarrow> round_half_even m \<le> K"
proof -
  assume m: "m \<le> of_int K"
  show ?thesis
  proof (cases "m = of_int K")
    case True
    then show ?thesis by (simp add: round_half_even_of_int)
  next
    case False
    with m have "m < of_int K" by simp
    then have "\<lfloor>m\<rfloor> < K"
      by (simp add: floor_less_iff)
    then show ?thesis
      by (auto simp: round_half_even_def Let_def)
  qed
qed

lemma round_half_even_gt: "of_int K + 1 / 2 < m \<Longrightarrow> K < round_half_even m"
proof -
  assume m: "of_int K + 1 / 2 < m"
  then have "of_int K \<le> m" by simp
  then have f: "K \<le> \<lfloor>m\<rfloor>"
    by (simp add: le_floor_iff)
  show ?thesis
  proof (cases "K = \<lfloor>m\<rfloor>")
    case True
    with m have "1 / 2 < m - of_int \<lfloor>m\<rfloor>" by simp
    then show ?thesis
      using True by (simp add: round_half_even_def Let_def)
  next
    case False
    with f have "K < \<lfloor>m\<rfloor>" by simp
    then show ?thesis
      by (auto simp: round_half_even_def Let_def)
  qed
qed

lemma round_half_even_down:
  assumes "of_int K \<le> m" "m < of_int K + 1 / 2"
  shows "round_half_even m = K"
proof -
  have "\<lfloor>m\<rfloor> = K"
    using assms by (simp add: floor_eq_iff)
  then show ?thesis
    using assms by (simp add: round_half_even_def Let_def)
qed

lemma float64_grid:
  assumes x: "0 < x" and e: "\<lfloor>log 2 x\<rfloor> = E" and E: "E \<le> 52"
  shows "float64 x = of_int (round_half_even (x * 2 ^ nat (52 - E))) / 2 ^ nat (52 - E)"
proof -
  have "(2::real) powr (of_int E - 52) = 2 powr (of_int (E - 52))"
    by simp
  also have "\<dots> = 1 / 2 ^ nat (52 - E)"
  proof (cases "E = 52")
    case True
    then show ?thesis by simp
  next
    case False
    with E have "\<not> 0 \<le> E - 52" by simp
    then show ?thesis
      by (subst powr_int) simp_all
  qed
  finally have ulp: "(2::real) powr (of_int E - 52) = 1 / 2 ^ nat (52 - E)" .
  show ?thesis
    using x by (simp add: float64_def e ulp)
qed

lemma floor_log2_bounds:
  assumes "2 ^ a \<le> x" "x < 2 ^ b"
  shows "int a \<le> \<lfloor>log 2 x\<rfloor>" "\<lfloor>log 2 x\<rfloor> < int b"
proof -
  have x: "0 < x"
    using assms(1) by (smt (verit) zero_less_power)
  have "real a \<le> log 2 x"
    using assms(1) x by (simp add: le_log_iff powr_realpow)
  then show "int a \<le> \<lfloor>log 2 x\<rfloor>"
    by (simp add: le_floor_iff)
  have "log 2 x < real b"
    using assms(2) x by (simp add: log_less_iff powr_realpow)
  then show "\<lfloor>log 2 x\<rfloor> < int b"
    by (simp add: floor_less_iff)
qed

lemma float64_of_int:
  assumes "1 \<le> n" "n < 2 ^ 53"
  shows "float64 (of_int n) = of_int n"
proof -
  define E where "E = \<lfloor>log 2 (real_of_int n)\<rfloor>"
  have "real_of_int n < of_int (2 ^ 53)"
    using assms(2) by (simp only: of_int_less_iff)
  then have "(2::real) ^ 0 \<le> of_int n" "real_of_int n < 2 ^ 53"
    using assms(1) by simp_all
  from floor_log2_bounds [OF this] have E: "0 \<le> E" "E \<le> 52"
    by (simp_all add: E_def)
  have "real_of_int n * 2 ^ nat (52 - E) = of_int (n * 2 ^ nat (52 - E))"
    by simp
  then have "round_half_even (real_of_int n * 2 ^ nat (52 - E)) = n * 2 ^ nat (52 - E)"
    by (simp only: round_half_even_of_int)
  then show ?thesis
    using float64_grid [of "of_int n" E] assms E by (simp add: E_def)
qed

lemma float64_between:
  fixes A B :: int
  assumes x1: "1 \<le> x" and x64: "x < 64"
    and lo: "of_int A + 1 / 2 ^ 48 < x" and hi: "x \<le> of_int B"
  shows "of_int A < float64 x" "float64 x \<le> of_int B"
proof -
  define E where "E = \<lfloor>log 2 x\<rfloor>"
  define p where "p = nat (52 - E)"
  have "(2::real) ^ 0 \<le> x" "x < 2 ^ 6"
    using x1 x64 by simp_all
  from floor_log2_bounds [OF this] have E: "0 \<le> E" "E \<le> 5"
    by (simp_all add: E_def)
  then have p: "47 \<le> p"
    by (simp add: p_def)
  have x: "0 < x"
    using x1 by simp
  have f: "float64 x = of_int (round_half_even (x * 2 ^ p)) / 2 ^ p"
    using float64_grid [OF x, of E] E by (simp add: E_def p_def)
  have pos: "(0::real) < 2 ^ p"
    by simp
  have "(2::real) ^ 47 \<le> 2 ^ p"
    using p by (intro power_increasing) simp_all
  then have half: "1 / 2 \<le> (2::real) ^ p / 2 ^ 48"
    by simp
  have "(of_int A + 1 / 2 ^ 48) * 2 ^ p < x * 2 ^ p"
    using lo pos by (simp only: mult_less_cancel_right_pos)
  then have "of_int A * 2 ^ p + 2 ^ p / 2 ^ 48 < x * 2 ^ p"
    by (simp add: algebra_simps)
  with half have "of_int (A * 2 ^ p) + 1 / 2 < x * 2 ^ p"
    by simp
  then have "A * 2 ^ p < round_half_even (x * 2 ^ p)"
    by (rule round_half_even_gt)
  then have "real_of_int (A * 2 ^ p) < of_int (round_half_even (x * 2 ^ p))"
    by (simp only: of_int_less_iff)
  then have "of_int A * 2 ^ p < real_of_int (round_half_even (x * 2 ^ p))"
    by simp
  then show "of_int A < float64 x"
    using pos by (simp add: f pos_less_divide_eq)
  have "x * 2 ^ p \<le> of_int B * 2 ^ p"
    using hi pos by (simp only: mult_le_cancel_right_pos)
  then have "x * 2 ^ p \<le> of_int (B * 2 ^ p)"
    by simp
  then have "round_half_even (x * 2 ^ p) \<le> B * 2 ^ p"
    by (rule round_half_even_le)
  then have "real_of_int (round_half_even (x * 2 ^ p)) \<le> of_int (B * 2 ^ p)"
    by (simp only: of_int_le_iff)
  then have "real_of_int (round_half_even (x * 2 ^ p)) \<le> of_int B * 2 ^ p"
    by simp
  then show "float64 x \<le> of_int B"
    using pos by (simp add: f pos_divide_le_eq)
qed

lemma float64_rounds_down:
  fixes A :: int
  assumes x32: "32 \<le> x" and x64: "x < 64"
    and lo: "of_int A \<le> x" and hi: "x < of_int A + 1 / 2 ^ 48"
  shows "float64 x = of_int A"
proof -
  have "(2::real) ^ 5 \<le> x" "x < 2 ^ 6"
    using x32 x64 by simp_all
  from floor_log2_bounds [OF this] have "int 5 \<le> \<lfloor>log 2 x\<rfloor>" "\<lfloor>log 2 x\<rfloor> < int 6" .
  then have E: "\<lfloor>log 2 x\<rfloor> = 5"
    by linarith
  have x: "0 < x"
    using x32 by simp
  have f: "float64 x = of_int (round_half_even (x * 2 ^ 47)) / 2 ^ 47"
    using float64_grid [OF x E] by simp
  have "of_int A * 2 ^ 47 \<le> x * 2 ^ 47"
    using lo by simp
  then have 1: "of_int (A * 2 ^ 47) \<le> x * 2 ^ 47"
    by simp
  have "x * 2 ^ 47 < (of_int A + 1 / 2 ^ 48) * 2 ^ 47"
    using hi by simp
  then have 2: "x * 2 ^ 47 < of_int (A * 2 ^ 47) + 1 / 2"
    by (simp add: algebra_simps)
  have "round_half_even (x * 2 ^ 47) = A * 2 ^ 47"
    using 1 2 by (rule round_half_even_down)
  then show ?thesis
    by (simp add: f)
qed

lemma Bernoulli_strict:
  fixes t :: real
  assumes "0 < t" "2 \<le> n"
  shows "1 + real n * t < (1 + t) ^ n"
proof -
  obtain m where n: "n = Suc m" and m: "1 \<le> m"
    using assms(2) by (cases n) auto
  have "1 + real m * t \<le> (1 + t) ^ m"
    using Bernoulli_inequality [of t m] assms(1) by simp
  then have "(1 + t) * (1 + real m * t) \<le> (1 + t) * (1 + t) ^ m"
    using assms(1) by (intro mult_left_mono) simp_all
  moreover have "0 < real m * (t * t)"
    using m assms(1) by simp
  then have "1 + real (Suc m) * t < (1 + t) * (1 + real m * t)"
    by (simp add: algebra_simps)
  ultimately show ?thesis
    by (simp add: n)
qed

lemma log2_one_plus_lower:
  assumes "1 \<le> j"
  shows "1 / 2 ^ j < log 2 (1 + 1 / 2 ^ j)"
proof -
  let ?t = "1 / (2::real) ^ j"
  have t: "0 < ?t"
    by simp
  have "(2::nat) ^ 1 \<le> 2 ^ j"
    using assms by (intro power_increasing) simp_all
  then have n: "2 \<le> (2::nat) ^ j"
    by simp
  have "1 + real (2 ^ j) * ?t < (1 + ?t) ^ (2 ^ j)"
    using Bernoulli_strict [OF t n] .
  then have "2 < (1 + ?t) ^ (2 ^ j)"
    by simp
  then have "log 2 2 < log 2 ((1 + ?t) ^ (2 ^ j))"
    by (subst log_less_cancel_iff) simp_all
  then have "1 < real (2 ^ j) * log 2 (1 + ?t)"
    by (simp add: log_nat_power)
  then have "1 < log 2 (1 + ?t) * 2 ^ j"
    by (simp add: mult.commute)
  then show ?thesis
    by (simp add: pos_divide_less_eq)
qed

lemma ln2_gt_half: "1 / 2 < ln (2::real)"
proof -
  have "exp (1 / 2) * exp (1 / 2) = exp (1::real)"
    by (simp flip: exp_add)
  moreover have "exp (1::real) < 4"
    using exp_le by simp
  ultimately have lt: "exp (1 / 2 :: real) * exp (1 / 2) < 2 * 2"
    by simp
  have "exp (1 / 2 :: real) < 2"
  proof (rule ccontr)
    assume "\<not> exp (1 / 2 :: real) < 2"
    then have "2 \<le> exp (1 / 2 :: real)"
      by simp
    then have "2 * 2 \<le> exp (1 / 2 :: real) * exp (1 / 2)"
      by (intro mult_mono) simp_all
    with lt show False
      by simp
  qed
  then have "ln (exp (1 / 2 :: real)) < ln 2"
    by (subst ln_less_cancel_iff) simp_all
  then show ?thesis
    by simp
qed

lemma log2_one_plus_upper:
  assumes "0 < t"
  shows "log 2 (1 + t) < 2 * t"
proof -
  have "ln (1 + t) \<le> t"
    using assms by (intro ln_add_one_self_le_self) simp
  also have "t < 2 * t * ln 2"
    using ln2_gt_half assms by (simp add: field_simps)
  finally have "ln (1 + t) / ln 2 < 2 * t"
    by (simp add: pos_divide_less_eq)
  then show ?thesis
    by (simp add: log_def)
qed

section \<open>Properties of the register size\<close>

lemma log2_above_power:
  fixes d :: int
  assumes j: "1 \<le> j" and d: "2 ^ j < d"
  shows "real j + 1 / 2 ^ j < log 2 (real_of_int d)"
proof -
  have "2 ^ j + 1 \<le> d"
    using d by simp
  then have "real_of_int (2 ^ j + 1) \<le> real_of_int d"
    by (simp only: of_int_le_iff)
  then have le: "(2::real) ^ j + 1 \<le> real_of_int d"
    by simp
  have "(2::real) ^ j + 1 = 2 ^ j * (1 + 1 / 2 ^ j)"
    by (simp add: algebra_simps)
  moreover have "(0::real) < 1 + 1 / 2 ^ j"
    by (simp add: add_pos_pos)
  then have "log 2 ((2::real) ^ j * (1 + 1 / 2 ^ j)) = log 2 (2 ^ j) + log 2 (1 + 1 / 2 ^ j)"
    by (intro log_mult_pos) simp_all
  ultimately have "log 2 ((2::real) ^ j + 1) = log 2 (2 ^ j) + log 2 (1 + 1 / 2 ^ j)"
    by (simp only:)
  then have "log 2 ((2::real) ^ j + 1) = real j + log 2 (1 + 1 / 2 ^ j)"
    by simp
  with log2_one_plus_lower [OF j] have "real j + 1 / 2 ^ j < log 2 ((2::real) ^ j + 1)"
    by simp
  also have "\<dots> \<le> log 2 (real_of_int d)"
  proof -
    have "(0::real) < 2 ^ j + 1"
      by (simp add: add_pos_pos)
    moreover from this le have "0 < real_of_int d"
      by linarith
    ultimately show ?thesis
      using le by (subst log_le_cancel_iff) simp_all
  qed
  finally show ?thesis .
qed

lemma np_log2_upto:
  assumes d1: "1 \<le> d" and d49: "d \<le> 2 ^ 49"
  shows "\<exists>v. np_log2 d = Inr (Finite v) \<and> \<lceil>v\<rceil> = int (ceillog2 (nat d))"
proof (cases "d = 1")
  case True
  then show ?thesis
    using float64_of_int [of 1] by (simp add: np_log2_def float64_def)
next
  case False
  with d1 have d2: "2 \<le> d"
    by simp
  define k where "k = ceillog2 (nat d)"
  define x where "x = log 2 (real_of_int d)"
  have pos: "0 < nat d"
    using d1 by simp
  have rd: "real_of_int d = real (nat d)"
    using d1 by simp
  have "nat d \<le> 2 ^ 49"
    using d49 d1 by (simp add: nat_le_iff)
  then have k49: "k \<le> 49"
    using ceillog2_le_iff [OF pos, of 49] by (simp add: k_def)
  have "\<not> nat d \<le> 2 ^ 0"
    using d2 by simp
  then have k1: "1 \<le> k"
    using ceillog2_le_iff [OF pos, of 0] by (simp add: k_def)
  have "nat d \<le> 2 ^ k"
    unfolding k_def by (rule le_two_power_ceillog2)
  then have "real (nat d) \<le> real (2 ^ k)"
    by (simp only: of_nat_le_iff)
  then have up: "real_of_int d \<le> 2 ^ k"
    by (simp add: rd)
  have xk: "x \<le> real k"
    unfolding x_def using up d1 by (simp add: log_le_iff powr_realpow)
  have "real_of_int 2 \<le> real_of_int d"
    using d2 by (simp only: of_int_le_iff)
  then have x1: "1 \<le> x"
    unfolding x_def using d1 by (simp add: le_log_iff)
  have x64: "x < 64"
    using xk k49 by simp
  have lo: "real_of_int (int k - 1) + 1 / 2 ^ 48 < x"
  proof (cases "k = 1")
    case True
    have "(1::real) / 2 ^ 48 < 1"
      by simp
    with x1 True show ?thesis
      by simp
  next
    case False
    with k1 obtain j where j: "k = Suc j" "1 \<le> j"
      by (cases k) auto
    have "2 ^ k < 2 * nat d"
      unfolding k_def using pos by (rule two_power_ceillog2_gt)
    then have "2 ^ j < nat d"
      by (simp add: j)
    then have "int (2 ^ j) < int (nat d)"
      by (simp only: of_nat_less_iff)
    then have "2 ^ j < d"
      using d1 by simp
    from log2_above_power [OF j(2) this] have "real j + 1 / 2 ^ j < x"
      by (simp add: x_def)
    moreover have "(2::real) ^ j \<le> 2 ^ 48"
      using j k49 by (intro power_increasing) simp_all
    then have "(1::real) / 2 ^ 48 \<le> 1 / 2 ^ j"
      by (intro frac_le) simp_all
    ultimately have "real j + 1 / 2 ^ 48 < x"
      by linarith
    then show ?thesis
      by (simp add: j)
  qed
  have hi: "x \<le> real_of_int (int k)"
    using xk by simp
  from float64_between [OF x1 x64 lo hi]
  have "\<lceil>float64 x\<rceil> = int k"
    by (simp add: ceiling_eq_iff)
  moreover have "d < 2 ^ 53"
    using d49 by simp
  then have "float64 (of_int d) = of_int d"
    using d1 by (intro float64_of_int)
  ultimately show ?thesis
    using d1 d49 by (simp add: np_log2_def x_def k_def)
qed

lemma register_size_upto:
  assumes "1 \<le> py_trunc (2 * S + 1)" "py_trunc (2 * S + 1) \<le> 2 ^ 49"
  shows "register_size S =
           Inr (py_trunc (2 * S + 1), int (ceillog2 (nat (py_trunc (2 * S + 1)))))"
proof -
  from np_log2_upto [OF assms] obtain v where
    "np_log2 (py_trunc (2 * S + 1)) = Inr (Finite v)"
    "\<lceil>v\<rceil> = int (ceillog2 (nat (py_trunc (2 * S + 1))))"
    by blast
  then show ?thesis
    by (simp add: register_size_def np_ceil_def py_int_def bind_def py_trunc_def Let_def)
qed

lemma register_size_in_range:
  assumes "1 \<le> py_trunc (2 * S + 1)" "py_trunc (2 * S + 1) < 2 ^ 64"
  shows "\<exists>n. register_size S = Inr (py_trunc (2 * S + 1), n)"
  using assms by (simp add: register_size_def np_log2_def np_ceil_def py_int_def bind_def Let_def)

lemma np_log2_rounds_down: "np_log2 (2 ^ 49 + 1) = Inr (Finite 49)"
proof -
  define x where "x = log 2 (real_of_int (2 ^ 49 + 1))"
  have f: "float64 (of_int (2 ^ 49 + 1)) = of_int (2 ^ 49 + 1)"
    by (intro float64_of_int) simp_all
  have a: "real_of_int (2 ^ 49 + 1) = 2 ^ 49 * (1 + 1 / 2 ^ 49)"
    by simp
  have b: "log 2 ((2::real) ^ 49 * (1 + 1 / 2 ^ 49)) = log 2 (2 ^ 49) + log 2 (1 + 1 / 2 ^ 49)"
    by (intro log_mult_pos) simp_all
  have c: "log 2 ((2::real) ^ 49) = 49"
    by (subst log_pow_cancel) simp_all
  have x: "x = 49 + log 2 (1 + 1 / 2 ^ 49)"
    unfolding x_def a b c ..
  have "0 \<le> log 2 (1 + 1 / (2::real) ^ 49)"
    by (intro zero_le_log_cancel_iff [THEN iffD2]) simp_all
  then have lo: "real_of_int 49 \<le> x"
    by (simp add: x)
  have "log 2 (1 + 1 / (2::real) ^ 49) < 2 * (1 / 2 ^ 49)"
    by (intro log2_one_plus_upper) simp
  then have hi: "x < real_of_int 49 + 1 / 2 ^ 48"
    by (simp add: x)
  have "32 \<le> x" "x < 64"
    using lo hi by simp_all
  from float64_rounds_down [OF this lo hi] have "float64 x = 49"
    by simp
  then show ?thesis
    unfolding np_log2_def f x_def [symmetric] by simp
qed

lemma valid_spin_trunc:
  assumes "valid_spin S"
  shows "py_trunc (2 * S + 1) = \<lfloor>2 * S + 1\<rfloor>" "1 \<le> \<lfloor>2 * S + 1\<rfloor>"
    "of_int \<lfloor>2 * S + 1\<rfloor> = 2 * S + 1"
proof -
  have S: "0 \<le> S" and h: "2 * S = of_int \<lfloor>2 * S\<rfloor>"
    using assms by (simp_all add: valid_spin_def)
  show "py_trunc (2 * S + 1) = \<lfloor>2 * S + 1\<rfloor>"
    using S by (simp add: py_trunc_def)
  show "1 \<le> \<lfloor>2 * S + 1\<rfloor>"
    using S by simp
  show "of_int \<lfloor>2 * S + 1\<rfloor> = 2 * S + 1"
    using h by simp
qed

text \<open>
  Claim C4, as the code has it. For a spin \<open>S\<close> that is a non-negative half-integer
  with \<open>2 * S + 1 \<le> 2 ^ 49\<close>, the dimension is \<open>2 * S + 1\<close> and the number of qubits is
  the ceiling of its binary logarithm, the least \<open>n\<close> with \<open>2 * S + 1 \<le> 2 ^ n\<close>.
\<close>

theorem register_size_minimal_upto:
  assumes "valid_spin S" and "2 * S + 1 \<le> 2 ^ 49"
  shows "\<exists>n. register_size S = Inr (\<lfloor>2 * S + 1\<rfloor>, int n) \<and>
             of_int \<lfloor>2 * S + 1\<rfloor> = 2 * S + 1 \<and>
             int n = \<lceil>log 2 (real_of_rat (2 * S + 1))\<rceil> \<and>
             2 * S + 1 \<le> 2 ^ n \<and>
             (\<forall>m. 2 * S + 1 \<le> 2 ^ m \<longrightarrow> n \<le> m)"
proof -
  define d where "d = \<lfloor>2 * S + 1\<rfloor>"
  define n where "n = ceillog2 (nat d)"
  have t: "py_trunc (2 * S + 1) = d" and d1: "1 \<le> d" and dS: "of_int d = 2 * S + 1"
    using valid_spin_trunc [OF assms(1)] by (simp_all add: d_def)
  have "(of_int d :: rat) \<le> of_int (2 ^ 49)"
    using assms(2) by (simp add: dS)
  then have d49: "d \<le> 2 ^ 49"
    by (simp only: of_int_le_iff)
  have r: "register_size S = Inr (d, int n)"
    using register_size_upto [of S] d1 d49 by (simp add: t n_def)
  have pos: "0 < nat d"
    using d1 by simp
  have le: "2 * S + 1 \<le> 2 ^ m \<longleftrightarrow> n \<le> m" for m
  proof -
    have "2 * S + 1 \<le> 2 ^ m \<longleftrightarrow> (of_int d :: rat) \<le> of_int (2 ^ m)"
      by (simp add: dS)
    also have "\<dots> \<longleftrightarrow> d \<le> 2 ^ m"
      by (simp only: of_int_le_iff)
    also have "\<dots> \<longleftrightarrow> nat d \<le> 2 ^ m"
      using d1 by (simp add: nat_le_iff)
    also have "\<dots> \<longleftrightarrow> n \<le> m"
      using ceillog2_le_iff [OF pos, of m] by (simp add: n_def)
    finally show ?thesis .
  qed
  have "real_of_rat (2 * S + 1) = real_of_int d"
    by (simp add: dS [symmetric])
  moreover have "0 \<le> log 2 (real_of_int d)"
    using d1 by simp
  then have "0 \<le> \<lceil>log 2 (real_of_int d)\<rceil>"
    by linarith
  moreover have "real (nat d) = real_of_int d"
    using d1 by simp
  ultimately have c: "int n = \<lceil>log 2 (real_of_rat (2 * S + 1))\<rceil>"
    using pos by (simp add: n_def ceillog2_def)
  have "register_size S = Inr (d, int n) \<and> of_int d = 2 * S + 1 \<and>
        int n = \<lceil>log 2 (real_of_rat (2 * S + 1))\<rceil> \<and> 2 * S + 1 \<le> 2 ^ n \<and>
        (\<forall>m. 2 * S + 1 \<le> 2 ^ m \<longrightarrow> n \<le> m)"
    using r c le dS by blast
  then show ?thesis
    unfolding d_def by (rule exI)
qed

theorem register_size_minimal_upto_witness:
  "valid_spin (5 / 2) \<and> (2 * (5 / 2) + 1 :: rat) \<le> 2 ^ 49 \<and> register_size (5 / 2) = Inr (6, 3)"
proof -
  have v: "valid_spin (5 / 2)"
    by (simp add: valid_spin_def)
  have b: "(2 * (5 / 2) + 1 :: rat) \<le> 2 ^ 49"
    by simp
  from register_size_minimal_upto [OF v b] obtain n where
    r: "register_size (5 / 2) = Inr (6, int n)" and u: "(6::rat) \<le> 2 ^ n"
    and l: "\<And>m. (6::rat) \<le> 2 ^ m \<Longrightarrow> n \<le> m"
    by auto
  have "n \<le> 3"
    using l [of 3] by simp
  moreover have "\<not> (6::rat) \<le> 2 ^ k" if "k \<le> 2" for k
  proof -
    have "(2::rat) ^ k \<le> 2 ^ 2"
      using that by (intro power_increasing) simp_all
    then show ?thesis
      by simp
  qed
  then have "\<not> n \<le> 2"
    using u by blast
  ultimately have "n = 3"
    by simp
  with v b r show ?thesis
    by simp
qed

text \<open>
  Beyond this bound the float64 logarithm gives the count away: at the spin \<open>2 ^ 48\<close>
  the dimension is \<open>2 ^ 49 + 1\<close>, its logarithm rounds to \<open>49\<close>, and \<open>49\<close> qubits have
  fewer states than the spin.
\<close>

theorem register_size_minimal_counterexample:
  "valid_spin (2 ^ 48) \<and> register_size (2 ^ 48) = Inr (2 ^ 49 + 1, 49) \<and>
   \<not> (2 * 2 ^ 48 + 1 \<le> (2::rat) ^ 49)"
proof -
  have "py_trunc (2 * 2 ^ 48 + 1 :: rat) = 2 ^ 49 + 1"
    by (simp add: py_trunc_def)
  moreover have "np_log2 562949953421313 = Inr (Finite 49)"
    using np_log2_rounds_down by simp
  ultimately have "register_size (2 ^ 48) = Inr (2 ^ 49 + 1, 49)"
    by (simp add: register_size_def np_ceil_def py_int_def bind_def py_trunc_def Let_def)
  moreover have "valid_spin (2 ^ 48)"
    by (simp add: valid_spin_def)
  ultimately show ?thesis
    by simp
qed

section \<open>Properties of the mapping\<close>

lemma term_operator_returns:
  assumes "idx < length (x_arr second_q_op)" "idx < length (y_arr second_q_op)"
    and "idx < length (z_arr second_q_op)"
    and "zip (x_arr second_q_op ! idx) (zip (y_arr second_q_op ! idx) (z_arr second_q_op ! idx)) \<noteq> []"
  shows "\<exists>r. term_operator B enc second_q_op (idx, t) = Inr r"
proof -
  define modes where
    "modes = zip (x_arr second_q_op ! idx) (zip (y_arr second_q_op ! idx) (z_arr second_q_op ! idx))"
  have ne: "modes \<noteq> []"
    using assms(4) by (simp only: modes_def not_False_eq_True)
  from sequence_total [of "single_operator_on_spin_i B enc" modes]
  obtain bs where bs: "sequence (single_operator_on_spin_i B enc) modes = Inr bs"
    and len: "length bs = length modes"
    using single_operator_on_spin_i_total by blast
  from len ne have "bs \<noteq> []"
    by auto
  then obtain l ls where l: "bs = l # ls"
    by (cases bs) auto
  obtain label coeff where t: "t = (label, coeff)"
    by (cases t) auto
  have "term_operator B enc second_q_op (idx, t) =
          bind (sequence (single_operator_on_spin_i B enc) modes) (\<lambda>operatorlist.
          bind (reduce (operator_xor B) (rev operatorlist)) (\<lambda>tensored.
            Inr (scalar_mul B coeff tensored)))"
    using assms(1-3) by (simp add: term_operator_def getitem_def bind_def modes_def t)
  then have "term_operator B enc second_q_op (idx, t) =
          Inr (scalar_mul B coeff (tensor_reverse_modes B l ls))"
    by (simp only: bs l reduce_rev_tensor bind_def sum.case)
  then show ?thesis
    by blast
qed

text \<open>
  Claim C8. The mapping of an operator with two terms is the sum of the mappings of the
  two operators with one of the terms each; an exception of one of them is the exception
  of the whole, the one of the first term first. When the spin can be encoded and both
  terms have a mode, all three mappings return operators, and the operator of the whole
  is \<^verbatim>\<open>a + b\<close> for the operators \<open>a\<close> and \<open>b\<close> of the two terms.
\<close>

theorem map_op_additive:
  "map_op B self \<lparr>spin = s, to_list = [t1, t2], x_arr = [x1, x2], y_arr = [y1, y2], z_arr = [z1, z2]\<rparr> =
   add_results B
     (map_op B self \<lparr>spin = s, to_list = [t1], x_arr = [x1], y_arr = [y1], z_arr = [z1]\<rparr>)
     (map_op B self \<lparr>spin = s, to_list = [t2], x_arr = [x2], y_arr = [y2], z_arr = [z2]\<rparr>) \<and>
   (\<forall>enc. logarithmic_encoding B self s = Inr enc \<and>
          zip x1 (zip y1 z1) \<noteq> [] \<and> zip x2 (zip y2 z2) \<noteq> [] \<longrightarrow>
      (\<exists>a b.
         map_op B self \<lparr>spin = s, to_list = [t1], x_arr = [x1], y_arr = [y1], z_arr = [z1]\<rparr> = Inr a \<and>
         map_op B self \<lparr>spin = s, to_list = [t2], x_arr = [x2], y_arr = [y2], z_arr = [z2]\<rparr> = Inr b \<and>
         map_op B self \<lparr>spin = s, to_list = [t1, t2], x_arr = [x1, x2], y_arr = [y1, y2], z_arr = [z1, z2]\<rparr> =
           Inr (operator_add B a b)))"
proof -
  let ?op12 = "\<lparr>spin = s, to_list = [t1, t2], x_arr = [x1, x2], y_arr = [y1, y2], z_arr = [z1, z2]\<rparr>"
  let ?op1 = "\<lparr>spin = s, to_list = [t1], x_arr = [x1], y_arr = [y1], z_arr = [z1]\<rparr>"
  let ?op2 = "\<lparr>spin = s, to_list = [t2], x_arr = [x2], y_arr = [y2], z_arr = [z2]\<rparr>"
  have e12: "enumerate_list [t1, t2] = [(0, t1), (Suc 0, t2)]"
    by (simp add: enumerate_list_def upt_rec)
  have e1: "enumerate_list [t] = [(0, t)]" for t :: "string \<times> complex"
    by (simp add: enumerate_list_def)
  have 1: "term_operator B enc ?op12 (0, t1) = term_operator B enc ?op1 (0, t1)" for enc
    by (simp add: term_operator_def getitem_def split: prod.splits)
  have 2: "term_operator B enc ?op12 (Suc 0, t2) = term_operator B enc ?op2 (0, t2)" for enc
    by (simp add: term_operator_def getitem_def split: prod.splits)
  have sum: "map_op B self ?op12 = add_results B (map_op B self ?op1) (map_op B self ?op2)"
  proof (cases "logarithmic_encoding B self s")
    case (Inl e)
    then show ?thesis
      by (simp add: map_op_def add_results_def bind_def)
  next
    case (Inr enc)
    show ?thesis
      unfolding map_op_def add_results_def
      by (simp add: Inr e12 e1 1 2 bind_def split: sum.splits)
  qed
  have ok: "\<exists>a b. map_op B self ?op1 = Inr a \<and> map_op B self ?op2 = Inr b \<and>
                 map_op B self ?op12 = Inr (operator_add B a b)"
    if enc: "logarithmic_encoding B self s = Inr enc"
      and m1: "zip x1 (zip y1 z1) \<noteq> []" and m2: "zip x2 (zip y2 z2) \<noteq> []" for enc
  proof -
    from term_operator_returns [of 0 ?op1 B enc t1] m1
    obtain a where a: "term_operator B enc ?op1 (0, t1) = Inr a"
      by auto
    from term_operator_returns [of 0 ?op2 B enc t2] m2
    obtain b where b: "term_operator B enc ?op2 (0, t2) = Inr b"
      by auto
    have "map_op B self ?op1 = Inr a" "map_op B self ?op2 = Inr b"
      by (simp_all add: map_op_def enc e1 a b bind_def)
    moreover from this have "map_op B self ?op12 = Inr (operator_add B a b)"
      by (simp add: sum add_results_def bind_def)
    ultimately show ?thesis
      by blast
  qed
  from sum ok show ?thesis
    by blast
qed

lemma float64_one: "float64 1 = 1"
  using float64_of_int [of 1] by simp

lemma float64_two: "float64 2 = 2"
  using float64_of_int [of 2] by simp

lemma register_size_half: "register_size (1 / 2) = Inr (2, 1)"
  by (simp add: register_size_def py_trunc_def np_log2_def np_ceil_def py_int_def bind_def
      float64_one float64_two)

lemma valid_spin_half: "valid_spin (1 / 2)"
  by (simp add: valid_spin_def)

lemma encoding_half:
  "logarithmic_encoding symbolic \<lparr>padding = 1, location = Member UPPER\<rparr> (1 / 2) =
     Inr (Decomposed [[0, 1 / 2], [1 / 2, 0]], Decomposed [[0, - \<i> / 2], [\<i> / 2, 0]],
          Decomposed [[1 / 2, 0], [0, - 1 / 2]], Decomposed [[1, 0], [0, 1]])"
  by (simp add: logarithmic_encoding_def register_size_half bind_def symbolic_def
      SpinOp_to_matrix_def valid_spin_half spin_half_matrices_def np_eye_def embed_matrix_def
      numeral_2_eq_2)

theorem map_op_additive_witness:
  "logarithmic_encoding symbolic \<lparr>padding = 1, location = Member UPPER\<rparr> (1 / 2) =
     Inr (Decomposed [[0, 1 / 2], [1 / 2, 0]], Decomposed [[0, - \<i> / 2], [\<i> / 2, 0]],
          Decomposed [[1 / 2, 0], [0, - 1 / 2]], Decomposed [[1, 0], [0, 1]]) \<and>
   zip [1, 0::int] (zip [0, 0::int] [0, 0::int]) \<noteq> [] \<and>
   zip [0, 0::int] (zip [0, 0::int] [1, 1::int]) \<noteq> [] \<and>
   map_op symbolic \<lparr>padding = 1, location = Member UPPER\<rparr>
     \<lparr>spin = 1 / 2, to_list = [(''X_0'', 2), (''Z_0 Z_1'', 3)],
      x_arr = [[1, 0], [0, 0]], y_arr = [[0, 0], [0, 0]], z_arr = [[0, 0], [1, 1]]\<rparr> =
     Inr (Plus
           (Times 2 (Tensor (Decomposed [[1, 0], [0, 1]]) (Decomposed [[0, 1 / 2], [1 / 2, 0]])))
           (Times 3 (Tensor (Decomposed [[1 / 2, 0], [0, - 1 / 2]])
                            (Decomposed [[1 / 2, 0], [0, - 1 / 2]]))))"
proof -
  let ?self = "\<lparr>padding = 1, location = Member UPPER\<rparr>"
  let ?op1 = "\<lparr>spin = 1 / 2, to_list = [(''X_0'', 2)], x_arr = [[1, 0]], y_arr = [[0, 0]], z_arr = [[0, 0]]\<rparr>"
  let ?op2 = "\<lparr>spin = 1 / 2, to_list = [(''Z_0 Z_1'', 3)], x_arr = [[0, 0]], y_arr = [[0, 0]], z_arr = [[1, 1]]\<rparr>"
  let ?enc = "(Decomposed [[0, 1 / 2], [1 / 2, 0]], Decomposed [[0, - \<i> / 2], [\<i> / 2, 0]],
          Decomposed [[1 / 2, 0], [0, - 1 / 2]], Decomposed [[1, 0], [0, 1]])"
  have t1: "term_operator symbolic ?enc ?op1 (0, ''X_0'', 2) =
      Inr (Times 2 (Tensor (Decomposed [[1, 0], [0, 1]]) (Decomposed [[0, 1 / 2], [1 / 2, 0]])))"
    by (simp add: term_operator_def getitem_def single_operator_on_spin_i_def repeated_def
        bind_def symbolic_def)
  have t2: "term_operator symbolic ?enc ?op2 (0, ''Z_0 Z_1'', 3) =
      Inr (Times 3 (Tensor (Decomposed [[1 / 2, 0], [0, - 1 / 2]])
                           (Decomposed [[1 / 2, 0], [0, - 1 / 2]])))"
    by (simp add: term_operator_def getitem_def single_operator_on_spin_i_def repeated_def
        bind_def symbolic_def)
  have plus: "operator_add symbolic = Plus"
    by (simp add: symbolic_def)
  have m1: "map_op symbolic ?self ?op1 =
      Inr (Times 2 (Tensor (Decomposed [[1, 0], [0, 1]]) (Decomposed [[0, 1 / 2], [1 / 2, 0]])))"
    using t1 by (simp add: map_op_def encoding_half enumerate_list_def bind_def plus)
  have m2: "map_op symbolic ?self ?op2 =
      Inr (Times 3 (Tensor (Decomposed [[1 / 2, 0], [0, - 1 / 2]])
                           (Decomposed [[1 / 2, 0], [0, - 1 / 2]])))"
    using t2 by (simp add: map_op_def encoding_half enumerate_list_def bind_def plus)
  from map_op_additive [of symbolic ?self "1 / 2" "(''X_0'', 2)" "(''Z_0 Z_1'', 3)"
      "[1, 0]" "[0, 0]" "[0, 0]" "[0, 0]" "[0, 0]" "[1, 1]"]
  show ?thesis
    using encoding_half m1 m2 by (auto simp: plus)
qed

text \<open>
  Claim C10. For an operator without terms, \<^verbatim>\<open>map\<close> returns no operator: it raises.
  When the spin of the operator can be encoded, the exception is the TypeError of
  \<^verbatim>\<open>reduce\<close> on an empty sequence; the encoding runs before the terms are read, so an
  exception of the encoding comes first.
\<close>

theorem map_op_empty_term_list:
  assumes "to_list second_q_op = []"
  shows "(\<exists>e. map_op B self second_q_op = Inl e) \<and>
         (\<forall>enc. logarithmic_encoding B self (spin second_q_op) = Inr enc \<longrightarrow>
            map_op B self second_q_op = Inl TypeError_empty_reduce)"
  using assms by (simp add: map_op_def enumerate_list_def bind_def split: sum.splits)

theorem map_op_empty_term_list_witness:
  "to_list \<lparr>spin = 1 / 2, to_list = [], x_arr = [], y_arr = [], z_arr = []\<rparr> = [] \<and>
   (\<exists>enc. logarithmic_encoding symbolic \<lparr>padding = 1, location = Member UPPER\<rparr>
            (spin \<lparr>spin = 1 / 2, to_list = [], x_arr = [], y_arr = [], z_arr = []\<rparr>) = Inr enc) \<and>
   map_op symbolic \<lparr>padding = 1, location = Member UPPER\<rparr>
     \<lparr>spin = 1 / 2, to_list = [], x_arr = [], y_arr = [], z_arr = []\<rparr> = Inl TypeError_empty_reduce"
  using map_op_empty_term_list
    [of "\<lparr>spin = 1 / 2, to_list = [], x_arr = [], y_arr = [], z_arr = []\<rparr>" symbolic
        "\<lparr>padding = 1, location = Member UPPER\<rparr>"]
    encoding_half
  by simp

section \<open>Properties of the encoding on invalid spins\<close>

lemma py_trunc_negative_spin:
  fixes S :: rat
  shows "- 1 < S \<Longrightarrow> S < 0 \<Longrightarrow> py_trunc (2 * S + 1) = 0"
    and "S \<le> - 1 \<Longrightarrow> py_trunc (2 * S + 1) = \<lceil>2 * S + 1\<rceil> \<and> \<lceil>2 * S + 1\<rceil> < 0"
proof -
  assume a: "- 1 < S" "S < 0"
  show "py_trunc (2 * S + 1) = 0"
  proof (cases "2 * S + 1 < 0")
    case True
    have "of_int (- 1) < 2 * S + 1" "2 * S + 1 \<le> of_int 0"
      using a True by simp_all
    then have "\<lceil>2 * S + 1\<rceil> = 0"
      by (simp only: ceiling_eq_iff) simp
    with True show ?thesis
      by (simp only: py_trunc_def if_True)
  next
    case False
    have "of_int 0 \<le> 2 * S + 1" "2 * S + 1 < of_int 0 + 1"
      using a False by simp_all
    then have "\<lfloor>2 * S + 1\<rfloor> = 0"
      by (simp only: floor_eq_iff)
    with False show ?thesis
      by (simp only: py_trunc_def if_False)
  qed
next
  assume a: "S \<le> - 1"
  then have neg: "2 * S + 1 < 0"
    by simp
  have "2 * S + 1 \<le> of_int (- 1)"
    using a by simp
  then have "\<lceil>2 * S + 1\<rceil> \<le> - 1"
    by (simp only: ceiling_le_iff)
  with neg show "py_trunc (2 * S + 1) = \<lceil>2 * S + 1\<rceil> \<and> \<lceil>2 * S + 1\<rceil> < 0"
    by (simp only: py_trunc_def if_True) simp
qed

lemma nonneg_spin_trunc:
  assumes "0 \<le> (S::rat)"
  shows "py_trunc (2 * S + 1) = \<lfloor>2 * S + 1\<rfloor>" "1 \<le> \<lfloor>2 * S + 1\<rfloor>"
  using assms by (simp_all add: py_trunc_def)

lemma register_size_cases:
  fixes S :: rat
  shows "0 \<le> S \<Longrightarrow> \<lfloor>2 * S + 1\<rfloor> < 2 ^ 64 \<Longrightarrow> \<exists>n. register_size S = Inr (\<lfloor>2 * S + 1\<rfloor>, n)"
    and "0 \<le> S \<Longrightarrow> 2 ^ 64 \<le> \<lfloor>2 * S + 1\<rfloor> \<Longrightarrow> register_size S = Inl TypeError_ufunc"
    and "- 1 < S \<Longrightarrow> S < 0 \<Longrightarrow> register_size S = Inl OverflowError_int_of_inf"
    and "S \<le> - 1 \<Longrightarrow> - (2 ^ 63) \<le> \<lceil>2 * S + 1\<rceil> \<Longrightarrow> register_size S = Inl ValueError_int_of_nan"
    and "S \<le> - 1 \<Longrightarrow> \<lceil>2 * S + 1\<rceil> < - (2 ^ 63) \<Longrightarrow> register_size S = Inl TypeError_ufunc"
proof -
  show "0 \<le> S \<Longrightarrow> \<lfloor>2 * S + 1\<rfloor> < 2 ^ 64 \<Longrightarrow> \<exists>n. register_size S = Inr (\<lfloor>2 * S + 1\<rfloor>, n)"
    using register_size_in_range [of S] nonneg_spin_trunc [of S] by simp
  show "0 \<le> S \<Longrightarrow> 2 ^ 64 \<le> \<lfloor>2 * S + 1\<rfloor> \<Longrightarrow> register_size S = Inl TypeError_ufunc"
    using nonneg_spin_trunc [of S]
    by (simp add: register_size_def np_log2_def bind_def Let_def)
  show "- 1 < S \<Longrightarrow> S < 0 \<Longrightarrow> register_size S = Inl OverflowError_int_of_inf"
    using py_trunc_negative_spin(1) [of S]
    by (simp add: register_size_def np_log2_def np_ceil_def py_int_def bind_def Let_def)
  show "S \<le> - 1 \<Longrightarrow> - (2 ^ 63) \<le> \<lceil>2 * S + 1\<rceil> \<Longrightarrow> register_size S = Inl ValueError_int_of_nan"
    using py_trunc_negative_spin(2) [of S]
    by (simp add: register_size_def np_log2_def np_ceil_def py_int_def bind_def Let_def)
  show "S \<le> - 1 \<Longrightarrow> \<lceil>2 * S + 1\<rceil> < - (2 ^ 63) \<Longrightarrow> register_size S = Inl TypeError_ufunc"
    using py_trunc_negative_spin(2) [of S]
    by (simp add: register_size_def np_log2_def bind_def Let_def)
qed

lemma encoding_of_register_error:
  "register_size S = Inl e \<Longrightarrow> logarithmic_encoding B self S = Inl e"
  by (simp add: logarithmic_encoding_def bind_def)

lemma encoding_of_rejected_spin:
  assumes "\<not> valid_spin S" "register_size S = Inr (d, n)"
  shows "logarithmic_encoding B self S = Inl InvalidSpinError"
  using assms by (simp add: logarithmic_encoding_def bind_def SpinOp_to_matrix_def)

text \<open>
  Claim C7, as the code has it. For a spin that is not a non-negative half-integer the
  encoding raises, and so does \<^verbatim>\<open>map\<close>. For a spin that is not negative the exception
  is the InvalidSpinError of the provider of the spin matrices. For a negative spin line
  132 raises first: the dimension \<^verbatim>\<open>int(2 * spin + 1)\<close> is zero for a spin above \<open>- 1\<close>,
  where \<^verbatim>\<open>int\<close> meets minus infinity (OverflowError), and negative from \<open>- 1\<close> down,
  where it meets NaN (ValueError). The two bounds keep the dimension among the 64-bit
  integers, outside of which \<^verbatim>\<open>np.log2\<close> raises its TypeError.
\<close>

theorem logarithmic_encoding_invalid_spin:
  assumes "\<not> valid_spin S"
  shows "(\<exists>e. logarithmic_encoding B self S = Inl e) \<and>
         (spin second_q_op = S \<longrightarrow> (\<exists>e. map_op B self second_q_op = Inl e)) \<and>
         (0 \<le> S \<and> \<lfloor>2 * S + 1\<rfloor> < 2 ^ 64 \<longrightarrow>
            logarithmic_encoding B self S = Inl InvalidSpinError) \<and>
         (- 1 < S \<and> S < 0 \<longrightarrow>
            logarithmic_encoding B self S = Inl OverflowError_int_of_inf) \<and>
         (S \<le> - 1 \<and> - (2 ^ 63) \<le> \<lceil>2 * S + 1\<rceil> \<longrightarrow>
            logarithmic_encoding B self S = Inl ValueError_int_of_nan)"
proof -
  have invalid: "logarithmic_encoding B self S = Inl InvalidSpinError"
    if "0 \<le> S" "\<lfloor>2 * S + 1\<rfloor> < 2 ^ 64"
    using register_size_cases(1) [OF that] encoding_of_rejected_spin [OF assms] by blast
  have overflow: "logarithmic_encoding B self S = Inl OverflowError_int_of_inf" if "- 1 < S" "S < 0"
    using register_size_cases(3) [OF that] by (rule encoding_of_register_error)
  have nan: "logarithmic_encoding B self S = Inl ValueError_int_of_nan"
    if "S \<le> - 1" "- (2 ^ 63) \<le> \<lceil>2 * S + 1\<rceil>"
    using register_size_cases(4) [OF that] by (rule encoding_of_register_error)
  have fails: "\<exists>e. logarithmic_encoding B self S = Inl e"
  proof -
    consider "0 \<le> S" "\<lfloor>2 * S + 1\<rfloor> < 2 ^ 64" | "0 \<le> S" "2 ^ 64 \<le> \<lfloor>2 * S + 1\<rfloor>"
      | "- 1 < S" "S < 0" | "S \<le> - 1" "- (2 ^ 63) \<le> \<lceil>2 * S + 1\<rceil>"
      | "S \<le> - 1" "\<lceil>2 * S + 1\<rceil> < - (2 ^ 63)"
      by linarith
    then show ?thesis
    proof cases
      case 1
      then show ?thesis using invalid by blast
    next
      case 2
      then show ?thesis
        using register_size_cases(2) [of S] encoding_of_register_error by blast
    next
      case 3
      then show ?thesis using overflow by blast
    next
      case 4
      then show ?thesis using nan by blast
    next
      case 5
      then show ?thesis
        using register_size_cases(5) [of S] encoding_of_register_error by blast
    qed
  qed
  have "\<exists>e. map_op B self second_q_op = Inl e" if "spin second_q_op = S"
    using fails that by (auto simp: map_op_def bind_def)
  with fails invalid overflow nan show ?thesis
    by blast
qed

lemma floor_numeral_divide:
  "\<lfloor>numeral a / numeral b :: rat\<rfloor> = numeral a div numeral b"
  using floor_divide_of_int_eq [of "numeral a" "numeral b", where ?'a = rat] by simp

theorem logarithmic_encoding_invalid_spin_witness:
  "\<not> valid_spin (1 / 3) \<and> (0::rat) \<le> 1 / 3 \<and> \<lfloor>2 * (1 / 3) + 1 :: rat\<rfloor> < 2 ^ 64 \<and>
   logarithmic_encoding symbolic \<lparr>padding = 1, location = Member UPPER\<rparr> (1 / 3) =
     Inl InvalidSpinError \<and>
   \<not> valid_spin (- 1) \<and> (- 1::rat) \<le> - 1 \<and> - (2 ^ 63) \<le> \<lceil>2 * (- 1) + 1 :: rat\<rceil> \<and>
   logarithmic_encoding symbolic \<lparr>padding = 1, location = Member UPPER\<rparr> (- 1) =
     Inl ValueError_int_of_nan \<and>
   (\<exists>e. map_op symbolic \<lparr>padding = 1, location = Member UPPER\<rparr>
          \<lparr>spin = 1 / 3, to_list = [(''X_0'', 1)], x_arr = [[1]], y_arr = [[0]], z_arr = [[0]]\<rparr> = Inl e)"
proof -
  have v: "\<not> valid_spin (1 / 3)" "\<not> valid_spin (- 1)"
    by (simp_all add: valid_spin_def floor_numeral_divide)
  have f: "\<lfloor>2 * (1 / 3) + 1 :: rat\<rfloor> < 2 ^ 64"
    by (simp add: floor_numeral_divide)
  from logarithmic_encoding_invalid_spin [OF v(1), of symbolic
      "\<lparr>padding = 1, location = Member UPPER\<rparr>"
      "\<lparr>spin = 1 / 3, to_list = [(''X_0'', 1)], x_arr = [[1]], y_arr = [[0]], z_arr = [[0]]\<rparr>"]
    logarithmic_encoding_invalid_spin [OF v(2), of symbolic
      "\<lparr>padding = 1, location = Member UPPER\<rparr>"
      "\<lparr>spin = - 1, to_list = [], x_arr = [], y_arr = [], z_arr = []\<rparr>"]
  show ?thesis
    using v f by simp
qed

text \<open>
  At the spin \<open>- 1 / 2\<close> the exception is the OverflowError of line 132, whatever the
  backend: the provider of the spin matrices is not reached.
\<close>

theorem logarithmic_encoding_invalid_spin_counterexample:
  "\<not> valid_spin (- 1 / 2) \<and>
   register_size (- 1 / 2) = Inl OverflowError_int_of_inf \<and>
   logarithmic_encoding symbolic \<lparr>padding = 1, location = Member UPPER\<rparr> (- 1 / 2) =
     Inl OverflowError_int_of_inf \<and>
   OverflowError_int_of_inf \<noteq> InvalidSpinError"
  by (simp add: valid_spin_def logarithmic_encoding_def register_size_def py_trunc_def
      np_log2_def np_ceil_def py_int_def bind_def)

end
